theory Spec2Isabelle
  imports Complex_Main "HOL-Library.Sublist"
begin

section \<open>JSON values\<close>

text \<open>
  The values \<^verbatim>\<open>JSON.parse\<close> produces. A JavaScript number is a double: every finite
  double is a rational (the two zeros are the rational 0), an overflowing literal such as
  \<^verbatim>\<open>1e999\<close> parses to an infinity, and no JSON text parses to \<^verbatim>\<open>NaN\<close>. An object
  is its list of properties in insertion order, each key once; a property is read with
  \<open>map_of\<close>, and a key that is not there reads as \<open>None\<close> (JavaScript's
  \<^verbatim>\<open>undefined\<close>).
\<close>

datatype number = Finite rat | PosInfinity | NegInfinity

datatype json =
    JNull
  | JBool bool
  | JNum number
  | JStr string
  | JArr "json list"
  | JObj "(string \<times> json) list"


section \<open>The schema library\<close>

text \<open>
  \<^verbatim>\<open>lib/schema.ts\<close> builds its schemas from the combinators of the zod library
  (version 3). The combinators the repository uses are the constructors of \<open>zod\<close>, and
  \<open>zparse\<close> is the library's synchronous \<^verbatim>\<open>_parse\<close>: it validates a value that may be
  \<^verbatim>\<open>undefined\<close> at a path, and returns the parsed value or every issue it met.
\<close>

datatype ZodParsedType =
    T_undefined | T_null | T_boolean | T_number | T_string | T_array | T_object
  | T_integer | T_float

datatype path_elem = Key string | Idx nat

datatype issue_code =
    invalid_type ZodParsedType ZodParsedType
  | invalid_string_url
  | too_small rat
  | too_big rat

type_synonym issue = "path_elem list \<times> issue_code"

datatype string_check = CheckUrl

datatype number_check = CheckInt | CheckMin rat | CheckMax rat

datatype zod =
    ZString "string_check list"
  | ZNumber "number_check list"
  | ZArray zod
  | ZObject "(string \<times> zod) list"
  | ZNullable zod
  | ZOptional zod
  | ZDefault zod json

fun getParsedType :: "json option \<Rightarrow> ZodParsedType" where
  "getParsedType None = T_undefined"
| "getParsedType (Some JNull) = T_null"
| "getParsedType (Some (JBool _)) = T_boolean"
| "getParsedType (Some (JNum _)) = T_number"
| "getParsedType (Some (JStr _)) = T_string"
| "getParsedType (Some (JArr _)) = T_array"
| "getParsedType (Some (JObj _)) = T_object"

text \<open>\<^verbatim>\<open>Number.isInteger\<close> and the comparisons of a double with a bound.\<close>

fun isInteger :: "number \<Rightarrow> bool" where
  "isInteger (Finite q) = (rat_of_int \<lfloor>q\<rfloor> = q)"
| "isInteger PosInfinity = False"
| "isInteger NegInfinity = False"

fun number_less :: "number \<Rightarrow> rat \<Rightarrow> bool" where
  "number_less (Finite q) b = (q < b)"
| "number_less PosInfinity b = False"
| "number_less NegInfinity b = True"

fun number_greater :: "number \<Rightarrow> rat \<Rightarrow> bool" where
  "number_greater (Finite q) b = (q > b)"
| "number_greater PosInfinity b = True"
| "number_greater NegInfinity b = False"

text \<open>
  A check that fails adds its issue and the other checks still run. The \<^verbatim>\<open>url\<close> check
  of the library is \<^verbatim>\<open>new URL(s)\<close> not throwing; that predicate of the platform is the
  parameter \<open>isURL\<close>.
\<close>

fun string_check_issues :: "(string \<Rightarrow> bool) \<Rightarrow> path_elem list \<Rightarrow> string \<Rightarrow> string_check \<Rightarrow> issue list" where
  "string_check_issues isURL p s CheckUrl = (if isURL s then [] else [(p, invalid_string_url)])"

fun number_check_issues :: "path_elem list \<Rightarrow> number \<Rightarrow> number_check \<Rightarrow> issue list" where
  "number_check_issues p n CheckInt = (if isInteger n then [] else [(p, invalid_type T_integer T_float)])"
| "number_check_issues p n (CheckMin b) = (if number_less n b then [(p, too_small b)] else [])"
| "number_check_issues p n (CheckMax b) = (if number_greater n b then [(p, too_big b)] else [])"

type_synonym parse_return = "issue list + json option"

definition issues_of :: "parse_return list \<Rightarrow> issue list" where
  "issues_of rs = concat (map (\<lambda>r. case r of Inl is \<Rightarrow> is | Inr _ \<Rightarrow> []) rs)"

definition finish :: "issue list \<Rightarrow> json option \<Rightarrow> parse_return" where
  "finish is v = (if is = [] then Inr v else Inl is)"

text \<open>
  \<^verbatim>\<open>mergeArray\<close>: the parsed elements, once no element raised an issue. An element of a
  JSON array is never \<^verbatim>\<open>undefined\<close>, so neither is its parsed value (lemma
  \<open>zparse_defined\<close>); the \<open>JNull\<close> below is what such a hole would serialise to.
\<close>

definition mergeArray :: "parse_return list \<Rightarrow> parse_return" where
  "mergeArray rs =
     finish (issues_of rs)
       (Some (JArr (map (\<lambda>r. case r of Inr (Some v) \<Rightarrow> v | _ \<Rightarrow> JNull) rs)))"

text \<open>
  \<^verbatim>\<open>mergeObjectSync\<close>: the final object gets the keys of the shape, in the shape's order;
  a key whose parsed value is \<^verbatim>\<open>undefined\<close> is set only when the input had the key, and
  an input from JSON that has the key has a defined value there.
\<close>

definition mergeObjectSync :: "(string \<times> parse_return) list \<Rightarrow> parse_return" where
  "mergeObjectSync pairs =
     finish (issues_of (map snd pairs))
       (Some (JObj (List.map_filter
          (\<lambda>(k, r). case r of Inr (Some v) \<Rightarrow> Some (k, v) | _ \<Rightarrow> None) pairs)))"

fun zparse :: "(string \<Rightarrow> bool) \<Rightarrow> zod \<Rightarrow> path_elem list \<Rightarrow> json option \<Rightarrow> parse_return" where
  "zparse isURL (ZString checks) p x =
     (case x of
        Some (JStr s) \<Rightarrow> finish (concat (map (string_check_issues isURL p s) checks)) x
      | _ \<Rightarrow> Inl [(p, invalid_type T_string (getParsedType x))])"
| "zparse isURL (ZNumber checks) p x =
     (case x of
        Some (JNum n) \<Rightarrow> finish (concat (map (number_check_issues p n) checks)) x
      | _ \<Rightarrow> Inl [(p, invalid_type T_number (getParsedType x))])"
| "zparse isURL (ZArray s) p x =
     (case x of
        Some (JArr xs) \<Rightarrow>
          mergeArray (map (\<lambda>(i, e). zparse isURL s (p @ [Idx i]) (Some e)) (enumerate 0 xs))
      | _ \<Rightarrow> Inl [(p, invalid_type T_array (getParsedType x))])"
| "zparse isURL (ZObject shape) p x =
     (case x of
        Some (JObj kvs) \<Rightarrow>
          mergeObjectSync
            (map (\<lambda>(k, s). (k, zparse isURL s (p @ [Key k]) (map_of kvs k))) shape)
      | _ \<Rightarrow> Inl [(p, invalid_type T_object (getParsedType x))])"
| "zparse isURL (ZNullable s) p x =
     (if x = Some JNull then Inr (Some JNull) else zparse isURL s p x)"
| "zparse isURL (ZOptional s) p x =
     (if x = None then Inr None else zparse isURL s p x)"
| "zparse isURL (ZDefault s d) p x =
     zparse isURL s p (if x = None then Some d else x)"

text \<open>
  \<^verbatim>\<open>schema.parse(data)\<close> returns the parsed value, or throws a \<^verbatim>\<open>ZodError\<close> that
  carries all the issues. The other thrown values of the program are errors with a
  message, which may be missing.
\<close>

datatype thrown = ZodError "issue list" | Error "string option"

definition parse :: "(string \<Rightarrow> bool) \<Rightarrow> zod \<Rightarrow> json \<Rightarrow> thrown + json option" where
  "parse isURL schema data =
     (case zparse isURL schema [] (Some data) of
        Inl issues \<Rightarrow> Inl (ZodError issues)
      | Inr v \<Rightarrow> Inr v)"

text \<open>
  \<^verbatim>\<open>ZodError.flatten()\<close>: an issue with an empty path is a form error; any other issue is
  pushed on the list of the first element of its path. The reason kept for an issue is
  its code, from which the library derives the message.
\<close>

record flattened =
  formErrors :: "issue_code list"
  fieldErrors :: "(path_elem \<times> issue_code list) list"

fun push_field :: "path_elem \<Rightarrow> issue_code \<Rightarrow> (path_elem \<times> issue_code list) list \<Rightarrow> (path_elem \<times> issue_code list) list" where
  "push_field k c [] = [(k, [c])]"
| "push_field k c ((k', cs) # rest) =
     (if k' = k then (k', cs @ [c]) # rest else (k', cs) # push_field k c rest)"

fun flatten_step :: "flattened \<Rightarrow> issue \<Rightarrow> flattened" where
  "flatten_step acc ([], c) = acc\<lparr>formErrors := formErrors acc @ [c]\<rparr>"
| "flatten_step acc (k # _, c) = acc\<lparr>fieldErrors := push_field k c (fieldErrors acc)\<rparr>"

definition flatten :: "issue list \<Rightarrow> flattened" where
  "flatten issues = foldl flatten_step \<lparr>formErrors = [], fieldErrors = []\<rparr> issues"

section \<open>lib/schema.ts\<close>

definition sourceZ :: zod where
  "sourceZ = ZObject
     [(''title'', ZOptional (ZNullable (ZString []))),
      (''url'', ZString [CheckUrl])]"

definition factCheckZ :: zod where
  "factCheckZ = ZObject
     [(''productName'', ZNullable (ZString [])),
      (''company'', ZNullable (ZString [])),
      (''keyNumbers'', ZDefault (ZArray (ZString [])) (JArr [])),
      (''measurableFacts'', ZDefault (ZArray (ZString [])) (JArr [])),
      (''category'', ZNullable (ZString [])),
      (''briefContext'', ZNullable (ZString [])),
      (''truthScore'', ZNullable (ZNumber [CheckInt, CheckMin 0, CheckMax 100])),
      (''report'', ZString []),
      (''sources'', ZDefault (ZArray sourceZ) (JArr []))]"

section \<open>app/api/analyze/route.ts\<close>

text \<open>
  What the route takes from its platform: the JSON parser (\<open>Inl\<close> is the message of
  the \<^verbatim>\<open>SyntaxError\<close> it throws), the inference service behind
  \<^verbatim>\<open>client.responses.create\<close> (\<open>Inl\<close> is the message of the error it throws, \<open>Inr\<close>
  the \<^verbatim>\<open>output_text\<close> of its response), the URL predicate of the schema library, the
  message the engine gives the \<^verbatim>\<open>TypeError\<close> of destructuring \<^verbatim>\<open>null\<close>, and the
  environment variable that may name the model.
\<close>

record create_params =
  model :: string
  temperature :: rat
  image_url :: string
  max_output_tokens :: nat

record env =
  JSON_parse :: "string \<Rightarrow> string option + json"
  responses_create :: "create_params \<Rightarrow> string option + string"
  URL_parses :: "string \<Rightarrow> bool"
  TypeError_message :: string
  OPENAI_VISION_MODEL :: "string option"

record request =
  body :: string

datatype response_body =
    Result "json option"
  | ErrorMessage string
  | ErrorFlattened flattened

record response =
  status :: nat
  payload :: response_body

text \<open>
  Reading a property of a JSON value other than \<^verbatim>\<open>null\<close>: only an object has
  properties of its own under a name such as \<^verbatim>\<open>image\<close>.
\<close>

fun property :: "json \<Rightarrow> string \<Rightarrow> json option" where
  "property (JObj kvs) k = map_of kvs k"
| "property _ k = None"

text \<open>JavaScript's \<^verbatim>\<open>!v\<close>, \<^verbatim>\<open>typeof v\<close> and \<^verbatim>\<open>v.startsWith(p)\<close> on the values above.\<close>

fun falsy :: "json option \<Rightarrow> bool" where
  "falsy None = True"
| "falsy (Some JNull) = True"
| "falsy (Some (JBool b)) = (\<not> b)"
| "falsy (Some (JNum n)) = (n = Finite 0)"
| "falsy (Some (JStr s)) = (s = [])"
| "falsy (Some (JArr _)) = False"
| "falsy (Some (JObj _)) = False"

fun typeof :: "json option \<Rightarrow> string" where
  "typeof None = ''undefined''"
| "typeof (Some JNull) = ''object''"
| "typeof (Some (JBool _)) = ''boolean''"
| "typeof (Some (JNum _)) = ''number''"
| "typeof (Some (JStr _)) = ''string''"
| "typeof (Some (JArr _)) = ''object''"
| "typeof (Some (JObj _)) = ''object''"

fun startsWith :: "json option \<Rightarrow> string \<Rightarrow> bool" where
  "startsWith (Some (JStr s)) p = prefix p s"
| "startsWith _ p = False"

fun the_string :: "json option \<Rightarrow> string" where
  "the_string (Some (JStr s)) = s"
| "the_string _ = []"

text \<open>\<^verbatim>\<open>a || b\<close> on strings that may be missing: \<open>b\<close> when \<open>a\<close> is missing or empty.\<close>

fun or_else :: "string option \<Rightarrow> string \<Rightarrow> string" where
  "or_else None d = d"
| "or_else (Some s) d = (if s = [] then d else s)"

definition invalid_image :: response where
  "invalid_image =
     \<lparr>status = 400,
      payload = ErrorMessage
        ''Invalid image. Send a data URL (base64) captured from camera or upload.''\<rparr>"

text \<open>
  The request sent to the inference service for an image. The fixed instruction text
  and the output-schema contract are constants of the call and are left out.
\<close>

definition analysis_params :: "env \<Rightarrow> string \<Rightarrow> create_params" where
  "analysis_params e img =
     \<lparr>model = or_else (OPENAI_VISION_MODEL e) ''gpt-4o'',
      temperature = 2 / 10,
      image_url = img,
      max_output_tokens = 900\<rparr>"

text \<open>
  The body of the \<^verbatim>\<open>try\<close> block: the response it returns or the value it throws,
  with the calls it made to the inference service. The destructuring
  \<^verbatim>\<open>const { image } = (await req.json())\<close> throws a \<^verbatim>\<open>TypeError\<close> when the body is
  \<^verbatim>\<open>null\<close>, and reads the property \<^verbatim>\<open>image\<close> of any other value.
\<close>

definition POST_try :: "env \<Rightarrow> request \<Rightarrow> (thrown + response) \<times> create_params list" where
  "POST_try e req =
     (case JSON_parse e (body req) of
        Inl m \<Rightarrow> (Inl (Error m), [])
      | Inr b \<Rightarrow>
          if b = JNull then (Inl (Error (Some (TypeError_message e))), [])
          else
            let img = property b ''image'' in
            if falsy img \<or> typeof img \<noteq> ''string'' \<or> \<not> startsWith img ''data:image''
            then (Inr invalid_image, [])
            else
              let params = analysis_params e (the_string img)
              in (case responses_create e params of
                    Inl m \<Rightarrow> (Inl (Error m), [params])
                  | Inr jsonText \<Rightarrow>
                      (case JSON_parse e jsonText of
                         Inl m \<Rightarrow> (Inl (Error m), [params])
                       | Inr parsed \<Rightarrow>
                           (case parse (URL_parses e) factCheckZ parsed of
                              Inl err \<Rightarrow> (Inl err, [params])
                            | Inr validated \<Rightarrow>
                                (Inr \<lparr>status = 200, payload = Result validated\<rparr>,
                                 [params])))))"

text \<open>The \<^verbatim>\<open>catch\<close> block.\<close>

fun POST_catch :: "thrown \<Rightarrow> response" where
  "POST_catch (ZodError issues) =
     \<lparr>status = 422, payload = ErrorFlattened (flatten issues)\<rparr>"
| "POST_catch (Error m) =
     \<lparr>status = 500, payload = ErrorMessage (or_else m ''Unexpected server error'')\<rparr>"

definition POST :: "env \<Rightarrow> request \<Rightarrow> response \<times> create_params list" where
  "POST e req =
     (case POST_try e req of
        (Inl err, calls) \<Rightarrow> (POST_catch err, calls)
      | (Inr res, calls) \<Rightarrow> (res, calls))"

section \<open>Notions used to state the properties\<close>

text \<open>
  The shape of an object schema (the library's \<^verbatim>\<open>.shape\<close>), and the schemas whose
  objects have no key twice.
\<close>

fun shape :: "zod \<Rightarrow> (string \<times> zod) list" where
  "shape (ZObject sh) = sh"
| "shape _ = []"



text \<open>
  What the loop of the object parser computes for one key of the shape: the result of
  the key's schema on the property read from the input (at the key's path), and the
  property it contributes to the final object.
\<close>

definition field_result :: "(string \<Rightarrow> bool) \<Rightarrow> path_elem list \<Rightarrow> (string \<times> json) list \<Rightarrow> string \<times> zod \<Rightarrow> parse_return" where
  "field_result isURL p kvs ks = zparse isURL (snd ks) (p @ [Key (fst ks)]) (map_of kvs (fst ks))"

definition field_value :: "(string \<Rightarrow> bool) \<Rightarrow> path_elem list \<Rightarrow> (string \<times> json) list \<Rightarrow> string \<times> zod \<Rightarrow> (string \<times> json) option" where
  "field_value isURL p kvs ks =
     (case field_result isURL p kvs ks of Inr (Some v) \<Rightarrow> Some (fst ks, v) | _ \<Rightarrow> None)"

text \<open>
  Two inputs that differ only in unknown properties, at any depth: \<open>same_known s x x'\<close>
  compares \<open>x\<close> and \<open>x'\<close> as the schema \<open>s\<close> reads them. Where \<open>s\<close> describes an
  object, only the properties under the keys of its shape are compared; arrays are
  compared element by element; everything else must be equal.
\<close>

fun same_known :: "zod \<Rightarrow> json option \<Rightarrow> json option \<Rightarrow> bool" where
  "same_known (ZString _) x x' = (x' = x)"
| "same_known (ZNumber _) x x' = (x' = x)"
| "same_known (ZArray s) x x' =
     (case x of
        Some (JArr xs) \<Rightarrow>
          (case x' of
             Some (JArr xs') \<Rightarrow> list_all2 (\<lambda>a a'. same_known s (Some a) (Some a')) xs xs'
           | _ \<Rightarrow> False)
      | _ \<Rightarrow> x' = x)"
| "same_known (ZObject sh) x x' =
     (case x of
        Some (JObj kvs) \<Rightarrow>
          (case x' of
             Some (JObj kvs') \<Rightarrow> \<forall>(k, s) \<in> set sh. same_known s (map_of kvs k) (map_of kvs' k)
           | _ \<Rightarrow> False)
      | _ \<Rightarrow> x' = x)"
| "same_known (ZNullable s) x x' = same_known s x x'"
| "same_known (ZOptional s) x x' = same_known s x x'"
| "same_known (ZDefault s d) x x' = same_known s x x'"

text \<open>
  A value without unknown properties: every object that the schema describes has only
  keys of the shape, at any depth.
\<close>

fun known_only :: "zod \<Rightarrow> json \<Rightarrow> bool" where
  "known_only (ZString _) v = True"
| "known_only (ZNumber _) v = True"
| "known_only (ZArray s) v = (case v of JArr vs \<Rightarrow> \<forall>w \<in> set vs. known_only s w | _ \<Rightarrow> True)"
| "known_only (ZObject sh) v =
     (case v of
        JObj out \<Rightarrow> \<forall>(k, w) \<in> set out. \<exists>(k', s) \<in> set sh. k' = k \<and> known_only s w
      | _ \<Rightarrow> True)"
| "known_only (ZNullable s) v = known_only s v"
| "known_only (ZOptional s) v = known_only s v"
| "known_only (ZDefault s d) v = known_only s v"

text \<open>
  The reasons of the issues filed under a path element, in the order of the issues.
\<close>

definition reasons_at :: "path_elem \<Rightarrow> issue list \<Rightarrow> issue_code list" where
  "reasons_at k issues = map snd (filter (\<lambda>i. fst i \<noteq> [] \<and> hd (fst i) = k) issues)"

section \<open>The candidates of the repository's tests\<close>

text \<open>
  \<^verbatim>\<open>__tests__/factCheckResult.schema.test.ts\<close>: the valid response, the response
  with an out-of-range score and the minimal response. (The multiplication sign in the
  report of the first is written \<open>x\<close>.)
\<close>

definition data :: json where
  "data = JObj
     [(''productName'', JStr ''TurboBattery X''),
      (''company'', JStr ''PowerCorp''),
      (''keyNumbers'', JArr [JStr ''3x longer'', JStr ''5000mAh'']),
      (''measurableFacts'', JArr [JStr ''Battery capacity: 5000mAh'', JStr ''Fast charge: 45W'']),
      (''category'', JStr ''tech spec''),
      (''briefContext'', JStr ''Smartphone battery endurance claim.''),
      (''truthScore'', JNum (Finite 72)),
      (''report'', JStr ''Independent tests show above-average endurance but not 3x under standardized benchmarks.''),
      (''sources'', JArr
         [JObj [(''title'', JStr ''PowerCorp specs''), (''url'', JStr ''https://example.com/specs'')],
          JObj [(''title'', JStr ''Lab review''), (''url'', JStr ''https://example.com/review'')]])]"

definition bad :: json where
  "bad = JObj
     [(''productName'', JStr ''X''),
      (''company'', JStr ''Y''),
      (''keyNumbers'', JArr []),
      (''measurableFacts'', JArr []),
      (''category'', JNull),
      (''briefContext'', JNull),
      (''truthScore'', JNum (Finite 120)),
      (''report'', JStr ''x''),
      (''sources'', JArr [])]"

definition minimal :: json where
  "minimal = JObj
     [(''productName'', JNull),
      (''company'', JNull),
      (''keyNumbers'', JArr []),
      (''measurableFacts'', JArr []),
      (''category'', JNull),
      (''briefContext'', JNull),
      (''truthScore'', JNull),
      (''report'', JStr ''Insufficient information to verify.''),
      (''sources'', JArr [])]"

text \<open>
  Two answers that fail inside \<^verbatim>\<open>sources\<close>: the first at \<^verbatim>\<open>sources[0].title\<close>, the
  second at \<^verbatim>\<open>sources[1].url\<close>, both with a number where a string is expected.
\<close>

definition bad_title :: json where
  "bad_title = JObj
     [(''productName'', JNull),
      (''company'', JNull),
      (''category'', JNull),
      (''briefContext'', JNull),
      (''truthScore'', JNull),
      (''report'', JStr ''x''),
      (''sources'', JArr
         [JObj [(''title'', JNum (Finite 1)), (''url'', JStr ''https://example.com/specs'')],
          JObj [(''url'', JStr ''https://example.com/review'')]])]"

definition bad_url :: json where
  "bad_url = JObj
     [(''productName'', JNull),
      (''company'', JNull),
      (''category'', JNull),
      (''briefContext'', JNull),
      (''truthScore'', JNull),
      (''report'', JStr ''x''),
      (''sources'', JArr
         [JObj [(''url'', JStr ''https://example.com/specs'')],
          JObj [(''url'', JNum (Finite 2))]])]"

text \<open>
  A stub of the platform for concrete runs of the route: a JSON parser that knows the
  listed texts and throws on every other, an inference service that answers every call
  with \<open>reply\<close>, URLs that must start with \<open>https://\<close>, a message for the
  \<^verbatim>\<open>TypeError\<close>, and no model override. The request below carries a data URL.
\<close>

definition stub_env :: "(string \<times> json) list \<Rightarrow> (string option + string) \<Rightarrow> env" where
  "stub_env texts reply =
     \<lparr>JSON_parse = (\<lambda>t. case map_of texts t of
                           Some j \<Rightarrow> Inr j
                         | None \<Rightarrow> Inl (Some ''Unexpected token'')),
      responses_create = (\<lambda>p. reply),
      URL_parses = prefix ''https://'',
      TypeError_message = ''Cannot destructure property of null'',
      OPENAI_VISION_MODEL = None\<rparr>"

definition request_text :: string where
  \<open>request_text = ''{"image":"data:image/webp;base64,UklGRg=="}''\<close>

definition request_json :: json where
  "request_json = JObj [(''image'', JStr ''data:image/webp;base64,UklGRg=='')]"

section \<open>Results of the parser\<close>

lemmas zparse_unfold = mergeObjectSync_def mergeArray_def finish_def issues_of_def

lemma finish_Inr_iff: "finish is v = Inr w \<longleftrightarrow> is = [] \<and> w = v"
  by (auto simp: finish_def)

lemma finish_Inl_iff: "finish is v = Inl js \<longleftrightarrow> is \<noteq> [] \<and> js = is"
  by (auto simp: finish_def)

lemma zparse_not_Inl_Nil: "zparse isURL s p x \<noteq> Inl []"
  by (induction isURL s p x rule: zparse.induct)
     (auto simp: mergeArray_def mergeObjectSync_def finish_Inl_iff split: option.splits json.splits)

lemma issues_of_Nil_iff:
  "issues_of rs = [] \<longleftrightarrow> (\<forall>r \<in> set rs. r = Inl [] \<or> (\<exists>v. r = Inr v))"
  by (induction rs) (auto simp: issues_of_def split: sum.splits)

lemma in_issues_of: "i \<in> set (issues_of rs) \<longleftrightarrow> (\<exists>is. Inl is \<in> set rs \<and> i \<in> set is)"
  by (induction rs) (auto simp: issues_of_def split: sum.splits)

lemma issues_of_Cons:
  "issues_of (r # rs) = (case r of Inl is \<Rightarrow> is | Inr _ \<Rightarrow> []) @ issues_of rs"
  by (simp add: issues_of_def)

text \<open>
  A value that is there never parses to \<^verbatim>\<open>undefined\<close>.
\<close>

lemma zparse_defined: "zparse isURL s p (Some v) = Inr r \<Longrightarrow> r \<noteq> None"
proof (induction s arbitrary: p v r)
  case (ZString x)
  then show ?case by (auto simp: finish_Inr_iff split: json.splits)
next
  case (ZNumber x)
  then show ?case by (auto simp: finish_Inr_iff split: json.splits)
next
  case (ZArray s)
  then show ?case by (auto simp: mergeArray_def finish_Inr_iff split: json.splits)
next
  case (ZObject x)
  then show ?case by (auto simp: mergeObjectSync_def finish_Inr_iff split: json.splits)
next
  case (ZNullable s)
  then show ?case by (auto split: if_splits)
next
  case (ZOptional s)
  then show ?case by (auto split: if_splits)
next
  case (ZDefault s x2)
  then show ?case by (auto split: if_splits)
qed

lemma parse_Inr_iff: "parse isURL s c = Inr r \<longleftrightarrow> zparse isURL s [] (Some c) = Inr r"
  by (auto simp: parse_def split: sum.splits)

lemma parse_Inl_iff:
  "parse isURL s c = Inl err \<longleftrightarrow> (\<exists>issues. err = ZodError issues \<and> zparse isURL s [] (Some c) = Inl issues)"
  by (auto simp: parse_def split: sum.splits)

subsection \<open>Arrays\<close>

lemma array_results:
  "map (\<lambda>(i, e). f i e) (enumerate n xs) = map (\<lambda>v. Inr (Some v)) vs \<longleftrightarrow>
     length vs = length xs \<and> (\<forall>i < length xs. f (n + i) (xs ! i) = Inr (Some (vs ! i)))"
  by (auto simp: list_eq_iff_nth_eq nth_enumerate_eq)

lemma all_Inr_Some:
  assumes "\<forall>r \<in> set rs. \<exists>v. r = Inr (Some v)"
  shows "rs = map (\<lambda>v. Inr (Some v)) (map (\<lambda>r. case r of Inr (Some v) \<Rightarrow> v | _ \<Rightarrow> JNull) rs)"
  using assms by (induction rs) auto

lemma zparse_array_Inr_iff:
  "zparse isURL (ZArray s) p x = Inr w \<longleftrightarrow>
     (\<exists>xs vs. x = Some (JArr xs) \<and> w = Some (JArr vs) \<and> length vs = length xs \<and>
        (\<forall>i < length xs. zparse isURL s (p @ [Idx i]) (Some (xs ! i)) = Inr (Some (vs ! i))))"
  (is "?L \<longleftrightarrow> ?R")
proof
  assume L: ?L
  then obtain xs where x: "x = Some (JArr xs)"
    by (auto split: option.splits json.splits)
  define rs where "rs = map (\<lambda>(i, e). zparse isURL s (p @ [Idx i]) (Some e)) (enumerate 0 xs)"
  define vs where "vs = map (\<lambda>r. case r of Inr (Some v) \<Rightarrow> v | _ \<Rightarrow> JNull) rs"
  from L x have iss: "issues_of rs = []" and w: "w = Some (JArr vs)"
    by (auto simp: mergeArray_def finish_Inr_iff rs_def vs_def)
  have "\<forall>r \<in> set rs. \<exists>v. r = Inr (Some v)"
  proof
    fix r assume r: "r \<in> set rs"
    then obtain i e where "r = zparse isURL s (p @ [Idx i]) (Some e)"
      by (auto simp: rs_def)
    moreover from iss r have "r = Inl [] \<or> (\<exists>v. r = Inr v)"
      by (simp add: issues_of_Nil_iff)
    ultimately show "\<exists>v. r = Inr (Some v)"
      using zparse_not_Inl_Nil zparse_defined by (metis not_Some_eq)
  qed
  then have "rs = map (\<lambda>v. Inr (Some v)) vs"
    unfolding vs_def by (rule all_Inr_Some)
  then have "length vs = length xs \<and>
     (\<forall>i < length xs. zparse isURL s (p @ [Idx i]) (Some (xs ! i)) = Inr (Some (vs ! i)))"
    unfolding rs_def using array_results [of "\<lambda>i e. zparse isURL s (p @ [Idx i]) (Some e)" 0 xs vs]
    by simp
  with x w show ?R by blast
next
  assume ?R
  then obtain xs vs where x: "x = Some (JArr xs)" and w: "w = Some (JArr vs)"
    and len: "length vs = length xs"
    and el: "\<forall>i < length xs. zparse isURL s (p @ [Idx i]) (Some (xs ! i)) = Inr (Some (vs ! i))"
    by blast
  from len el have "map (\<lambda>(i, e). zparse isURL s (p @ [Idx i]) (Some e)) (enumerate 0 xs)
      = map (\<lambda>v. Inr (Some v)) vs"
    using array_results [of "\<lambda>i e. zparse isURL s (p @ [Idx i]) (Some e)" 0 xs vs] by simp
  then show ?L
    by (simp add: x w mergeArray_def finish_def issues_of_def o_def)
qed

subsection \<open>Objects\<close>

lemma map_filter_map: "List.map_filter f (map g xs) = List.map_filter (\<lambda>x. f (g x)) xs"
  by (induction xs) (simp_all split: option.splits)

lemma map_filter_cong:
  "(\<And>x. x \<in> set xs \<Longrightarrow> f x = g x) \<Longrightarrow> List.map_filter f xs = List.map_filter g xs"
  by (induction xs) (auto split: option.splits)

lemma zparse_object_eq:
  "zparse isURL (ZObject sh) p (Some (JObj kvs)) =
     finish (issues_of (map (field_result isURL p kvs) sh))
       (Some (JObj (List.map_filter (field_value isURL p kvs) sh)))"
proof -
  have "(\<lambda>x. snd (case x of (k, s) \<Rightarrow> (k, zparse isURL s (p @ [Key k]) (map_of kvs k))))
      = field_result isURL p kvs"
    by (auto simp: field_result_def fun_eq_iff)
  moreover have "(\<lambda>x. case (case x of (k, s) \<Rightarrow> (k, zparse isURL s (p @ [Key k]) (map_of kvs k))) of
       (k, r) \<Rightarrow> (case r of Inr (Some v) \<Rightarrow> Some (k, v) | _ \<Rightarrow> None))
      = field_value isURL p kvs"
    by (auto simp: field_value_def field_result_def fun_eq_iff split: sum.splits option.splits)
  ultimately show ?thesis
    by (simp add: mergeObjectSync_def map_filter_map o_def)
qed

lemma zparse_object_Inr_iff:
  "zparse isURL (ZObject sh) p x = Inr w \<longleftrightarrow>
     (\<exists>kvs. x = Some (JObj kvs) \<and>
        (\<forall>ks \<in> set sh. \<exists>v. field_result isURL p kvs ks = Inr v) \<and>
        w = Some (JObj (List.map_filter (field_value isURL p kvs) sh)))"
proof (cases "\<exists>kvs. x = Some (JObj kvs)")
  case True
  then obtain kvs where x: "x = Some (JObj kvs)" by blast
  have "issues_of (map (field_result isURL p kvs) sh) = [] \<longleftrightarrow>
      (\<forall>ks \<in> set sh. \<exists>v. field_result isURL p kvs ks = Inr v)"
    by (auto simp: issues_of_Nil_iff field_result_def zparse_not_Inl_Nil)
  then show ?thesis
    unfolding x zparse_object_eq finish_Inr_iff by auto
next
  case False
  then show ?thesis by (auto split: option.splits json.splits)
qed

lemma map_of_map_filter_fields:
  assumes "distinct (map fst sh)" and "ks \<in> set sh"
    and "\<And>ks v. ks \<in> set sh \<Longrightarrow> g ks = Some v \<Longrightarrow> fst v = fst ks"
  shows "map_of (List.map_filter g sh) (fst ks) = map_option snd (g ks)"
  using assms
proof (induction sh)
  case Nil
  then show ?case by simp
next
  case (Cons a sh)
  show ?case
  proof (cases "ks = a")
    case True
    have "map_of (List.map_filter g sh) (fst a) = None"
    proof (rule ccontr)
      assume "map_of (List.map_filter g sh) (fst a) \<noteq> None"
      then obtain y where "(fst a, y) \<in> set (List.map_filter g sh)"
        by (auto dest: map_of_SomeD)
      then obtain b where "b \<in> set sh" "g b = Some (fst a, y)"
        by (auto simp: map_filter_def)
      with Cons.prems(3) [of b "(fst a, y)"] have "fst b = fst a" by simp
      moreover from Cons.prems(1) have "fst a \<notin> fst ` set sh" by simp
      ultimately show False using \<open>b \<in> set sh\<close> by (metis imageI)
    qed
    with True Cons.prems(3) [of a] show ?thesis
      by (cases "g a") auto
  next
    case False
    with Cons.prems have in_shape: "ks \<in> set sh" by simp
    from Cons.prems(1) in_shape have ne: "fst a \<noteq> fst ks" by force
    have "map_of (List.map_filter g sh) (fst ks) = map_option snd (g ks)"
      using Cons.IH [OF _ in_shape] Cons.prems(1,3) by simp
    with ne Cons.prems(3) [of a] show ?thesis
      by (cases "g a") auto
  qed
qed

lemma field_value_key: "field_value isURL p kvs ks = Some v \<Longrightarrow> fst v = fst ks"
  by (auto simp: field_value_def split: sum.splits option.splits)

lemma object_result_field:
  assumes "distinct (map fst sh)" and "ks \<in> set sh"
    and "field_result isURL p kvs ks = Inr r"
  shows "map_of (List.map_filter (field_value isURL p kvs) sh) (fst ks) = r"
proof -
  have "map_of (List.map_filter (field_value isURL p kvs) sh) (fst ks)
      = map_option snd (field_value isURL p kvs ks)"
    using assms(1,2) by (rule map_of_map_filter_fields) (rule field_value_key)
  also have "\<dots> = r"
    using assms(3) by (cases r) (simp_all add: field_value_def)
  finally show ?thesis .
qed

lemma object_field_rejects:
  assumes "ks \<in> set sh" and "field_result isURL p kvs ks = Inl is"
  shows "\<exists>all. zparse isURL (ZObject sh) p (Some (JObj kvs)) = Inl all \<and> set is \<subseteq> set all"
proof -
  from assms have sub: "set is \<subseteq> set (issues_of (map (field_result isURL p kvs) sh))"
    by (force simp: in_issues_of)
  moreover from assms(2) have "is \<noteq> []"
    using zparse_not_Inl_Nil by (auto simp: field_result_def)
  ultimately have "issues_of (map (field_result isURL p kvs) sh) \<noteq> []" by auto
  with sub show ?thesis
    unfolding zparse_object_eq by (simp add: finish_def)
qed

lemma object_issues:
  assumes "zparse isURL (ZObject sh) p (Some (JObj kvs)) = Inl issues"
  shows "issues = issues_of (map (field_result isURL p kvs) sh)"
  using assms unfolding zparse_object_eq by (simp add: finish_Inl_iff)

lemma object_result_keys:
  assumes "zparse isURL (ZObject sh) p x = Inr (Some (JObj out))"
  shows "set (map fst out) \<subseteq> set (map fst sh)"
proof -
  from assms obtain kvs where out: "out = List.map_filter (field_value isURL p kvs) sh"
    unfolding zparse_object_Inr_iff by auto
  have "fst kv \<in> fst ` set sh" if "kv \<in> set out" for kv
  proof -
    from that out obtain ks where "ks \<in> set sh" "field_value isURL p kvs ks = Some kv"
      by (auto simp: map_filter_def)
    then show ?thesis
      by (auto dest: field_value_key)
  qed
  then show ?thesis by auto
qed

subsection \<open>Issues carry the path of the value they are about\<close>

lemma string_check_issues_at:
  "(q, c) \<in> set (string_check_issues isURL p s ch) \<Longrightarrow> q = p"
  by (cases ch) (auto split: if_splits)

lemma number_check_issues_at:
  "(q, c) \<in> set (number_check_issues p n ch) \<Longrightarrow> q = p"
  by (cases ch) (auto split: if_splits)

lemma zparse_issue_paths:
  "zparse isURL s p x = Inl is \<Longrightarrow> (q, c) \<in> set is \<Longrightarrow> prefix p q"
proof (induction s arbitrary: p x "is")
  case (ZString cs)
  then show ?case
    by (auto simp: finish_Inl_iff split: option.splits json.splits dest: string_check_issues_at)
next
  case (ZNumber ns)
  then show ?case
    by (auto simp: finish_Inl_iff split: option.splits json.splits dest: number_check_issues_at)
next
  case (ZArray s)
  show ?case
  proof (cases x)
    case None
    with ZArray.prems show ?thesis by auto
  next
    case (Some j)
    show ?thesis
    proof (cases j)
      case (JArr xs)
      define rs where "rs = map (\<lambda>(i, e). zparse isURL s (p @ [Idx i]) (Some e)) (enumerate 0 xs)"
      from JArr Some ZArray.prems have "(q, c) \<in> set (issues_of rs)"
        by (simp add: mergeArray_def finish_Inl_iff rs_def)
      then obtain js where js: "Inl js \<in> set rs" "(q, c) \<in> set js"
        by (auto simp: in_issues_of)
      then obtain i e where "Inl js = zparse isURL s (p @ [Idx i]) (Some e)"
        by (auto simp: rs_def)
      then have "zparse isURL s (p @ [Idx i]) (Some e) = Inl js" by simp
      then have "prefix (p @ [Idx i]) q" using js(2) by (rule ZArray.IH)
      then show ?thesis by (rule append_prefixD)
    qed (use Some ZArray.prems in auto)
  qed
next
  case (ZObject sh)
  show ?case
  proof (cases x)
    case None
    with ZObject.prems show ?thesis by auto
  next
    case (Some j)
    show ?thesis
    proof (cases j)
      case (JObj kvs)
      from ZObject.prems(1) have "zparse isURL (ZObject sh) p (Some (JObj kvs)) = Inl is"
        unfolding Some JObj .
      with ZObject.prems(2)
      have "(q, c) \<in> set (issues_of (map (field_result isURL p kvs) sh))"
        unfolding zparse_object_eq by (simp add: finish_Inl_iff)
      then obtain js where js: "Inl js \<in> set (map (field_result isURL p kvs) sh)" "(q, c) \<in> set js"
        by (auto simp: in_issues_of)
      then obtain ks where ks: "ks \<in> set sh" "Inl js = field_result isURL p kvs ks"
        by auto
      then have "zparse isURL (snd ks) (p @ [Key (fst ks)]) (map_of kvs (fst ks)) = Inl js"
        by (simp add: field_result_def)
      moreover have "snd ks \<in> Basic_BNFs.snds ks"
        by (cases ks) simp
      ultimately have "prefix (p @ [Key (fst ks)]) q"
        using ZObject.IH ks(1) js(2) by blast
      then show ?thesis by (rule append_prefixD)
    qed (use Some ZObject.prems in auto)
  qed
next
  case (ZNullable s)
  then show ?case by (auto split: if_splits)
next
  case (ZOptional s)
  then show ?case by (auto split: if_splits)
next
  case (ZDefault s d)
  then show ?case by (auto split: if_splits)
qed

lemma field_issue_head:
  assumes "field_result isURL [] kvs f = Inl is" and "i \<in> set is"
  shows "fst i \<noteq> [] \<and> hd (fst i) = Key (fst f)"
proof -
  obtain q c where i: "i = (q, c)" by (cases i)
  from assms i have "prefix ([] @ [Key (fst f)]) q"
    unfolding field_result_def by (auto intro: zparse_issue_paths)
  then show ?thesis
    by (auto simp: i prefix_def)
qed

subsection \<open>Parsing a parsed value again\<close>





subsection \<open>Defaults\<close>

lemma defaults_omitted:
  assumes omitted: "\<forall>k \<in> set ks. map_of kvs k = None"
    and dflt: "\<forall>k \<in> set ks. \<forall>s. (k, s) \<in> set sh \<longrightarrow> (\<exists>t. s = ZDefault t d)"
  shows "zparse isURL (ZObject sh) p (Some (JObj (map (\<lambda>k. (k, d)) ks @ kvs)))
       = zparse isURL (ZObject sh) p (Some (JObj kvs))"
proof -
  let ?kvs' = "map (\<lambda>k. (k, d)) ks @ kvs"
  have look: "map_of ?kvs' k = (if k \<in> set ks then Some d else map_of kvs k)" for k
    by (induction ks) auto
  have res: "field_result isURL p ?kvs' f = field_result isURL p kvs f" if "f \<in> set sh" for f
  proof (cases "fst f \<in> set ks")
    case True
    with dflt that obtain t where "snd f = ZDefault t d"
      by (cases f) auto
    with True omitted show ?thesis
      by (simp add: field_result_def look del: map_of_append)
  next
    case False
    then show ?thesis
      by (simp add: field_result_def look del: map_of_append)
  qed
  then have "map (field_result isURL p ?kvs') sh = map (field_result isURL p kvs) sh"
    by simp
  moreover from res have "field_value isURL p ?kvs' f = field_value isURL p kvs f" if "f \<in> set sh" for f
    using that by (simp add: field_value_def)
  then have "List.map_filter (field_value isURL p ?kvs') sh = List.map_filter (field_value isURL p kvs) sh"
    by (rule map_filter_cong)
  ultimately show ?thesis
    by (simp only: zparse_object_eq)
qed

lemma default_field_result:
  assumes "distinct (map fst sh)" and "(k, ZDefault (ZArray t) (JArr [])) \<in> set sh"
    and "map_of kvs k = None"
    and "zparse isURL (ZObject sh) p (Some (JObj kvs)) = Inr r"
  shows "\<exists>out. r = Some (JObj out) \<and> map_of out k = Some (JArr [])"
proof -
  let ?f = "(k, ZDefault (ZArray t) (JArr []))"
  from assms(4) have r: "r = Some (JObj (List.map_filter (field_value isURL p kvs) sh))"
    unfolding zparse_object_Inr_iff by auto
  from assms(3) have "field_result isURL p kvs ?f = Inr (Some (JArr []))"
    by (simp add: field_result_def mergeArray_def finish_def issues_of_def)
  with assms(1,2) have "map_of (List.map_filter (field_value isURL p kvs) sh) (fst ?f) = Some (JArr [])"
    by (rule object_result_field)
  with r show ?thesis by simp
qed

subsection \<open>Unknown keys\<close>

lemma same_known_absent:
  "same_known s x x' \<Longrightarrow> (x' = None \<longleftrightarrow> x = None) \<and> (x' = Some JNull \<longleftrightarrow> x = Some JNull)"
  by (induction s arbitrary: x x') (auto split: option.splits json.splits)

lemma same_known_zparse:
  "same_known s x x' \<Longrightarrow> zparse isURL s p x' = zparse isURL s p x"
proof (induction s arbitrary: p x x')
  case (ZString cs)
  then show ?case by simp
next
  case (ZNumber ns)
  then show ?case by simp
next
  case (ZArray s)
  show ?case
  proof (cases "\<exists>xs. x = Some (JArr xs)")
    case True
    then obtain xs where x: "x = Some (JArr xs)" by blast
    with ZArray.prems obtain xs' where x': "x' = Some (JArr xs')"
      and rel: "list_all2 (\<lambda>a a'. same_known s (Some a) (Some a')) xs xs'"
      by (auto split: option.splits json.splits)
    from rel have len: "length xs' = length xs"
      by (simp add: list_all2_lengthD)
    have "map (\<lambda>(i, e). zparse isURL s (p @ [Idx i]) (Some e)) (enumerate 0 xs')
        = map (\<lambda>(i, e). zparse isURL s (p @ [Idx i]) (Some e)) (enumerate 0 xs)"
    proof (rule nth_equalityI)
      show "length (map (\<lambda>(i, e). zparse isURL s (p @ [Idx i]) (Some e)) (enumerate 0 xs'))
          = length (map (\<lambda>(i, e). zparse isURL s (p @ [Idx i]) (Some e)) (enumerate 0 xs))"
        using len by simp
    next
      fix i
      assume "i < length (map (\<lambda>(i, e). zparse isURL s (p @ [Idx i]) (Some e)) (enumerate 0 xs'))"
      then have i: "i < length xs" "i < length xs'"
        using len by simp_all
      from list_all2_nthD [OF rel i(1)] have "same_known s (Some (xs ! i)) (Some (xs' ! i))" .
      then have "zparse isURL s (p @ [Idx i]) (Some (xs' ! i)) = zparse isURL s (p @ [Idx i]) (Some (xs ! i))"
        by (rule ZArray.IH)
      with i show "map (\<lambda>(i, e). zparse isURL s (p @ [Idx i]) (Some e)) (enumerate 0 xs') ! i
          = map (\<lambda>(i, e). zparse isURL s (p @ [Idx i]) (Some e)) (enumerate 0 xs) ! i"
        by (simp add: nth_enumerate_eq)
    qed
    then show ?thesis
      by (simp add: x x')
  next
    case False
    with ZArray.prems have "x' = x"
      by (auto split: option.splits json.splits)
    then show ?thesis by simp
  qed
next
  case (ZObject sh)
  show ?case
  proof (cases "\<exists>kvs. x = Some (JObj kvs)")
    case True
    then obtain kvs where x: "x = Some (JObj kvs)" by blast
    with ZObject.prems obtain kvs' where x': "x' = Some (JObj kvs')"
      and rel: "\<forall>(k, s) \<in> set sh. same_known s (map_of kvs k) (map_of kvs' k)"
      by (auto split: option.splits json.splits)
    have res: "field_result isURL p kvs' f = field_result isURL p kvs f" if "f \<in> set sh" for f
    proof -
      from rel that have "same_known (snd f) (map_of kvs (fst f)) (map_of kvs' (fst f))"
        by (cases f) auto
      moreover have "snd f \<in> Basic_BNFs.snds f"
        by (cases f) simp
      ultimately show ?thesis
        unfolding field_result_def using ZObject.IH that by blast
    qed
    then have "map (field_result isURL p kvs') sh = map (field_result isURL p kvs) sh"
      by simp
    moreover from res have "field_value isURL p kvs' f = field_value isURL p kvs f" if "f \<in> set sh" for f
      using that by (simp add: field_value_def)
    then have "List.map_filter (field_value isURL p kvs') sh = List.map_filter (field_value isURL p kvs) sh"
      by (rule map_filter_cong)
    ultimately show ?thesis
      unfolding x x' by (simp only: zparse_object_eq)
  next
    case False
    with ZObject.prems have "x' = x"
      by (auto split: option.splits json.splits)
    then show ?thesis by simp
  qed
next
  case (ZNullable s)
  from ZNullable.prems have "same_known s x x'" by simp
  from same_known_absent [OF this] ZNullable.IH [OF this] show ?case
    by simp
next
  case (ZOptional s)
  from ZOptional.prems have "same_known s x x'" by simp
  from same_known_absent [OF this] ZOptional.IH [OF this] show ?case
    by simp
next
  case (ZDefault s d)
  from ZDefault.prems have sk: "same_known s x x'" by simp
  show ?case
  proof (cases "x = None")
    case True
    with same_known_absent [OF sk] show ?thesis by simp
  next
    case False
    with same_known_absent [OF sk] have "x' \<noteq> None" by simp
    with False ZDefault.IH [OF sk] show ?thesis by auto
  qed
qed

lemma known_only_null: "known_only s JNull"
  by (induction s) simp_all

lemma zparse_known_only:
  "zparse isURL s p x = Inr (Some v) \<Longrightarrow> known_only s v"
proof (induction s arbitrary: p x v)
  case (ZString cs)
  then show ?case by simp
next
  case (ZNumber ns)
  then show ?case by simp
next
  case (ZArray s)
  from ZArray.prems obtain xs vs where v: "v = JArr vs" and len: "length vs = length xs"
    and el: "\<forall>i < length xs. zparse isURL s (p @ [Idx i]) (Some (xs ! i)) = Inr (Some (vs ! i))"
    unfolding zparse_array_Inr_iff by auto
  have "known_only s w" if "w \<in> set vs" for w
  proof -
    from that obtain i where "i < length vs" "w = vs ! i"
      by (auto simp: in_set_conv_nth)
    with el len ZArray.IH show ?thesis
      by auto
  qed
  then show ?case
    unfolding v by simp
next
  case (ZObject sh)
  from ZObject.prems obtain kvs where
    v: "v = JObj (List.map_filter (field_value isURL p kvs) sh)"
    unfolding zparse_object_Inr_iff by auto
  have "\<exists>(k', s) \<in> set sh. k' = fst kv \<and> known_only s (snd kv)"
    if "kv \<in> set (List.map_filter (field_value isURL p kvs) sh)" for kv
  proof -
    from that obtain f where f: "f \<in> set sh" and fv: "field_value isURL p kvs f = Some kv"
      by (auto simp: map_filter_def)
    from fv have key: "fst f = fst kv"
      and "zparse isURL (snd f) (p @ [Key (fst f)]) (map_of kvs (fst f)) = Inr (Some (snd kv))"
      by (auto simp: field_value_def field_result_def split: sum.splits option.splits)
    moreover have "snd f \<in> Basic_BNFs.snds f"
      by (cases f) simp
    ultimately have "known_only (snd f) (snd kv)"
      using ZObject.IH f by blast
    with key have "(case f of (k', s) \<Rightarrow> k' = fst kv \<and> known_only s (snd kv))"
      by (simp add: case_prod_unfold)
    with f show ?thesis
      by (rule bexI [rotated])
  qed
  then show ?case
    unfolding v by (auto simp: case_prod_unfold)
next
  case (ZNullable s)
  then show ?case by (auto simp: known_only_null split: if_splits)
next
  case (ZOptional s)
  then show ?case by (auto split: if_splits)
next
  case (ZDefault s d)
  then show ?case by (auto split: if_splits)
qed

lemma same_known_refl: "same_known s x x"
proof (induction s arbitrary: x)
  case (ZArray s)
  then show ?case
    by (auto simp: list_all2_same split: option.splits json.splits)
next
  case (ZObject sh)
  then show ?case
    by (fastforce split: option.splits json.splits)
qed simp_all

lemma same_known_top:
  assumes "\<forall>k \<in> set (map fst sh). map_of kvs' k = map_of kvs k"
  shows "same_known (ZObject sh) (Some (JObj kvs)) (Some (JObj kvs'))"
  using assms by (auto simp: same_known_refl)

section \<open>Flattening the issues\<close>

lemma map_of_push_field:
  "map_of (push_field k c fe) k' =
     (if k' = k then Some (case map_of fe k of None \<Rightarrow> [c] | Some cs \<Rightarrow> cs @ [c])
      else map_of fe k')"
  by (induction fe) auto

lemma reasons_at_simps:
  "reasons_at k [] = []"
  "reasons_at k (([], c) # is) = reasons_at k is"
  "reasons_at k ((k' # q, c) # is) = (if k' = k then c # reasons_at k is else reasons_at k is)"
  by (simp_all add: reasons_at_def)

lemma fieldErrors_foldl:
  "map_of (fieldErrors (foldl flatten_step acc is)) k =
     (case map_of (fieldErrors acc) k of
        None \<Rightarrow> if reasons_at k is = [] then None else Some (reasons_at k is)
      | Some cs \<Rightarrow> Some (cs @ reasons_at k is))"
proof (induction "is" arbitrary: acc)
  case Nil
  then show ?case by (simp add: reasons_at_simps split: option.splits)
next
  case (Cons i "is")
  note IH = Cons.IH
  obtain q c where i: "i = (q, c)" by (cases i)
  show ?case
  proof (cases q)
    case Nil
    show ?thesis
      unfolding i Nil by (simp add: IH reasons_at_simps split: option.splits)
  next
    case (Cons k' q')
    show ?thesis
    proof (cases "map_of (fieldErrors acc) k")
      case None
      then show ?thesis
        unfolding i Cons by (auto simp: IH reasons_at_simps map_of_push_field)
    next
      case (Some cs)
      then show ?thesis
        unfolding i Cons by (auto simp: IH reasons_at_simps map_of_push_field)
    qed
  qed
qed

lemma flatten_fieldErrors:
  "map_of (fieldErrors (flatten issues)) k =
     (if reasons_at k issues = [] then None else Some (reasons_at k issues))"
  by (simp add: flatten_def fieldErrors_foldl)

lemma reasons_at_append: "reasons_at k (xs @ ys) = reasons_at k xs @ reasons_at k ys"
  by (simp add: reasons_at_def)

lemma reasons_at_all:
  "\<forall>i \<in> set is. fst i \<noteq> [] \<and> hd (fst i) = k \<Longrightarrow> reasons_at k is = map snd is"
  by (induction "is") (auto simp: reasons_at_def)

lemma reasons_at_none:
  "\<forall>i \<in> set is. fst i \<noteq> [] \<and> hd (fst i) \<noteq> k \<Longrightarrow> reasons_at k is = []"
  by (induction "is") (auto simp: reasons_at_def)

lemma reasons_at_other_fields:
  assumes "k \<notin> fst ` set sh"
  shows "reasons_at (Key k) (issues_of (map (field_result isURL [] kvs) sh)) = []"
  using assms
proof (induction sh)
  case Nil
  then show ?case by (simp add: issues_of_def reasons_at_def)
next
  case (Cons f sh)
  have "reasons_at (Key k) (case field_result isURL [] kvs f of Inl is \<Rightarrow> is | Inr _ \<Rightarrow> []) = []"
  proof (cases "field_result isURL [] kvs f")
    case (Inl "is")
    from Cons.prems have "Key (fst f) \<noteq> Key k" by auto
    with field_issue_head [OF Inl] have "reasons_at (Key k) is = []"
      by (intro reasons_at_none) auto
    with Inl show ?thesis by simp
  next
    case (Inr v)
    then show ?thesis by (simp add: reasons_at_def)
  qed
  with Cons show ?case
    by (simp add: issues_of_Cons reasons_at_append)
qed

lemma reasons_at_field:
  assumes "distinct (map fst sh)" and "f \<in> set sh"
  shows "reasons_at (Key (fst f)) (issues_of (map (field_result isURL [] kvs) sh))
       = (case field_result isURL [] kvs f of Inl is \<Rightarrow> map snd is | Inr _ \<Rightarrow> [])"
  using assms
proof (induction sh)
  case Nil
  then show ?case by simp
next
  case (Cons g sh)
  show ?case
  proof (cases "f = g")
    case True
    from Cons.prems(1) True have "fst f \<notin> fst ` set sh" by simp
    then have rest: "reasons_at (Key (fst f)) (issues_of (map (field_result isURL [] kvs) sh)) = []"
      by (rule reasons_at_other_fields)
    have "reasons_at (Key (fst f)) (case field_result isURL [] kvs f of Inl is \<Rightarrow> is | Inr _ \<Rightarrow> [])
        = (case field_result isURL [] kvs f of Inl is \<Rightarrow> map snd is | Inr _ \<Rightarrow> [])"
    proof (cases "field_result isURL [] kvs f")
      case (Inl "is")
      with field_issue_head [OF Inl] have "reasons_at (Key (fst f)) is = map snd is"
        by (intro reasons_at_all) auto
      with Inl show ?thesis by simp
    next
      case (Inr v)
      then show ?thesis by (simp add: reasons_at_def)
    qed
    with rest True show ?thesis
      by (simp add: issues_of_Cons reasons_at_append)
  next
    case False
    with Cons.prems have f: "f \<in> set sh" by simp
    from Cons.prems(1) have "fst g \<notin> fst ` set sh" by simp
    with f have ne: "fst g \<noteq> fst f" by (metis imageI)
    have "reasons_at (Key (fst f)) (case field_result isURL [] kvs g of Inl is \<Rightarrow> is | Inr _ \<Rightarrow> []) = []"
    proof (cases "field_result isURL [] kvs g")
      case (Inl "is")
      from ne have "Key (fst g) \<noteq> Key (fst f)" by simp
      with field_issue_head [OF Inl] have "reasons_at (Key (fst f)) is = []"
        by (intro reasons_at_none) auto
      with Inl show ?thesis by simp
    next
      case (Inr v)
      then show ?thesis by (simp add: reasons_at_def)
    qed
    moreover from Cons.prems(1) have "distinct (map fst sh)" by simp
    ultimately show ?thesis
      using Cons.IH f by (simp add: issues_of_Cons reasons_at_append)
  qed
qed

lemma flatten_fields:
  assumes "zparse isURL (ZObject sh) [] (Some (JObj kvs)) = Inl issues"
    and "distinct (map fst sh)" and "f \<in> set sh"
  shows "map_of (fieldErrors (flatten issues)) (Key (fst f))
       = (case field_result isURL [] kvs f of Inl is \<Rightarrow> Some (map snd is) | Inr _ \<Rightarrow> None)"
proof -
  have "field_result isURL [] kvs f \<noteq> Inl []"
    unfolding field_result_def by (rule zparse_not_Inl_Nil)
  then show ?thesis
    unfolding flatten_fieldErrors object_issues [OF assms(1)] reasons_at_field [OF assms(2,3)]
    by (auto split: sum.splits)
qed

section \<open>The schema of a fact check\<close>



lemma factCheckZ_shape: "factCheckZ = ZObject (shape factCheckZ)"
  by (simp add: factCheckZ_def)

lemma distinct_shape: "distinct (map fst (shape factCheckZ))"
  by (simp add: factCheckZ_def)

lemma field_in_shape:
  "(''truthScore'', ZNullable (ZNumber [CheckInt, CheckMin 0, CheckMax 100])) \<in> set (shape factCheckZ)"
  "(''report'', ZString []) \<in> set (shape factCheckZ)"
  by (simp_all add: factCheckZ_def)

lemma default_fields:
  "(''keyNumbers'', ZDefault (ZArray (ZString [])) (JArr [])) \<in> set (shape factCheckZ)"
  "(''measurableFacts'', ZDefault (ZArray (ZString [])) (JArr [])) \<in> set (shape factCheckZ)"
  "(''sources'', ZDefault (ZArray sourceZ) (JArr [])) \<in> set (shape factCheckZ)"
  by (simp_all add: factCheckZ_def)

lemma default_fields_only:
  assumes "k \<in> {''keyNumbers'', ''measurableFacts'', ''sources''}" and "(k, s) \<in> set (shape factCheckZ)"
  shows "\<exists>t. s = ZDefault t (JArr [])"
  using assms by (auto simp: factCheckZ_def)

lemma isInteger_iff: "isInteger n \<longleftrightarrow> (\<exists>k::int. n = Finite (rat_of_int k))"
proof (cases n)
  case (Finite q)
  show ?thesis
  proof
    assume "isInteger n"
    with Finite have "rat_of_int \<lfloor>q\<rfloor> = q" by simp
    then have "q = rat_of_int \<lfloor>q\<rfloor>" by (rule sym)
    with Finite have "n = Finite (rat_of_int \<lfloor>q\<rfloor>)" by (simp only:)
    then show "\<exists>k. n = Finite (rat_of_int k)" ..
  next
    assume "\<exists>k. n = Finite (rat_of_int k)"
    then obtain k where "n = Finite (rat_of_int k)" ..
    then show "isInteger n" by simp
  qed
qed simp_all

lemma truthScore_field:
  "(\<exists>r. zparse isURL (ZNullable (ZNumber [CheckInt, CheckMin 0, CheckMax 100])) p (Some v) = Inr r) \<longleftrightarrow>
     v = JNull \<or> (\<exists>k::int. 0 \<le> k \<and> k \<le> 100 \<and> v = JNum (Finite (rat_of_int k)))"
proof (cases v)
  case (JNum n)
  have "(\<exists>r. zparse isURL (ZNullable (ZNumber [CheckInt, CheckMin 0, CheckMax 100])) p (Some v) = Inr r)
      \<longleftrightarrow> isInteger n \<and> \<not> number_less n 0 \<and> \<not> number_greater n 100"
    by (auto simp: JNum finish_def)
  also have "\<dots> \<longleftrightarrow> (\<exists>k::int. 0 \<le> k \<and> k \<le> 100 \<and> n = Finite (rat_of_int k))"
    unfolding isInteger_iff by (cases n) auto
  finally show ?thesis by (simp add: JNum)
qed (simp_all add: finish_def)

lemma known_only_sources:
  assumes "known_only factCheckZ (JObj out)"
    and "(''sources'', JArr srcs) \<in> set out" and "JObj props \<in> set srcs"
  shows "set (map fst props) \<subseteq> {''title'', ''url''}"
proof -
  from assms(1,2) have "\<exists>(k', s) \<in> set (shape factCheckZ). k' = ''sources'' \<and> known_only s (JArr srcs)"
    by (auto simp: factCheckZ_def)
  then have "known_only (ZDefault (ZArray sourceZ) (JArr [])) (JArr srcs)"
    by (auto simp: factCheckZ_def)
  with assms(3) have "known_only sourceZ (JObj props)"
    by auto
  then show ?thesis
    by (auto simp: sourceZ_def)
qed


section \<open>The route\<close>

lemma image_guard:
  "falsy img \<or> typeof img \<noteq> ''string'' \<or> \<not> startsWith img ''data:image''
     \<longleftrightarrow> (\<nexists>s. img = Some (JStr s) \<and> prefix ''data:image'' s)"
proof (cases img)
  case None
  then show ?thesis by simp
next
  case (Some j)
  then show ?thesis by (cases j) auto
qed

lemma POST_try_image:
  assumes "JSON_parse e (body req) = Inr b"
    and "property b ''image'' = Some (JStr s)"
    and "prefix ''data:image'' s"
  shows "POST_try e req =
     (case responses_create e (analysis_params e s) of
        Inl m \<Rightarrow> (Inl (Error m), [analysis_params e s])
      | Inr jsonText \<Rightarrow>
          (case JSON_parse e jsonText of
             Inl m \<Rightarrow> (Inl (Error m), [analysis_params e s])
           | Inr parsed \<Rightarrow>
               (case parse (URL_parses e) factCheckZ parsed of
                  Inl err \<Rightarrow> (Inl err, [analysis_params e s])
                | Inr validated \<Rightarrow>
                    (Inr \<lparr>status = 200, payload = Result validated\<rparr>, [analysis_params e s]))))"
proof -
  from assms(3) have "\<not> (falsy (Some (JStr s)) \<or> typeof (Some (JStr s)) \<noteq> ''string''
      \<or> \<not> startsWith (Some (JStr s)) ''data:image'')"
    unfolding image_guard by simp
  moreover from assms(2) have "b \<noteq> JNull"
    by auto
  ultimately show ?thesis
    using assms(1,2) unfolding POST_try_def by (simp add: Let_def)
qed

text \<open>
  Whatever the request is, the inference service is called only for an image that passed
  the check: a body that is not JSON, the body \<^verbatim>\<open>null\<close> (both answered 500 by the
  \<^verbatim>\<open>catch\<close> block) and a body without a data URL in \<^verbatim>\<open>image\<close> make no call.
\<close>

lemma no_image_no_call:
  assumes "\<nexists>b s. JSON_parse e (body req) = Inr b \<and> property b ''image'' = Some (JStr s)
      \<and> prefix ''data:image'' s"
  shows "snd (POST e req) = []"
proof (cases "JSON_parse e (body req)")
  case (Inl m)
  then show ?thesis by (simp add: POST_def POST_try_def)
next
  case (Inr b)
  with assms have "\<nexists>s. property b ''image'' = Some (JStr s) \<and> prefix ''data:image'' s"
    by auto
  then have "falsy (property b ''image'') \<or> typeof (property b ''image'') \<noteq> ''string''
      \<or> \<not> startsWith (property b ''image'') ''data:image''"
    unfolding image_guard .
  with Inr show ?thesis by (simp add: POST_def POST_try_def Let_def)
qed

lemma body_unreadable_500:
  assumes "JSON_parse e (body req) = Inl m \<or> JSON_parse e (body req) = Inr JNull"
  shows "status (fst (POST e req)) = 500"
  using assms by (auto simp: POST_def POST_try_def)

section \<open>The properties of the specification\<close>

text \<open>
  C1, as the specification states it: every request whose \<^verbatim>\<open>image\<close> field is missing,
  is not a string or does not begin with \<^verbatim>\<open>data:image\<close> is answered with status 400.
  The request with the body \<^verbatim>\<open>null\<close> and the request whose body is not JSON have no
  \<^verbatim>\<open>image\<close> field; reading the field throws, and the \<^verbatim>\<open>catch\<close> block answers both
  with status 500.
\<close>

theorem image_missing_500:
  "status (fst (POST (stub_env [(''null'', JNull)] (Inl None)) \<lparr>body = ''null''\<rparr>)) = 500 \<and>
   status (fst (POST (stub_env [] (Inl None)) \<lparr>body = ''image=ad.png''\<rparr>)) = 500"
  by (simp add: POST_def POST_try_def stub_env_def)

text \<open>
  C1, amended: for every request whose body is JSON other than \<^verbatim>\<open>null\<close>, when the
  \<^verbatim>\<open>image\<close> field read from the body is missing (\<open>None\<close>), is not a string, or is a
  string that does not begin with \<^verbatim>\<open>data:image\<close>, the handler answers with status 400
  and the message "Invalid image. Send a data URL (base64) captured from camera or
  upload.", and it makes no call to the inference service.
\<close>

theorem invalid_image_400:
  assumes "JSON_parse e (body req) = Inr b"
    and "b \<noteq> JNull"
    and "\<nexists>s. property b ''image'' = Some (JStr s) \<and> prefix ''data:image'' s"
  shows "POST e req = (invalid_image, [])"
proof -
  from assms(3)
  have "falsy (property b ''image'') \<or> typeof (property b ''image'') \<noteq> ''string''
      \<or> \<not> startsWith (property b ''image'') ''data:image''"
    unfolding image_guard .
  with assms(1,2) show ?thesis
    by (simp add: POST_def POST_try_def Let_def)
qed

theorem invalid_image_400_witness:
  \<open>POST (stub_env [(''{"image":"ad.png"}'', JObj [(''image'', JStr ''ad.png'')])] (Inl None))
      \<lparr>body = ''{"image":"ad.png"}''\<rparr> = (invalid_image, []) \<and>
   POST (stub_env [(''{}'', JObj [])] (Inl None)) \<lparr>body = ''{}''\<rparr> = (invalid_image, []) \<and>
   POST (stub_env [(''{"image":42}'', JObj [(''image'', JNum (Finite 42))])] (Inl None))
      \<lparr>body = ''{"image":42}''\<rparr> = (invalid_image, [])\<close>
proof (intro conjI)
  show \<open>POST (stub_env [(''{"image":"ad.png"}'', JObj [(''image'', JStr ''ad.png'')])] (Inl None))
      \<lparr>body = ''{"image":"ad.png"}''\<rparr> = (invalid_image, [])\<close>
    by (rule invalid_image_400 [where b = "JObj [(''image'', JStr ''ad.png'')]"])
       (simp_all add: stub_env_def)
  show \<open>POST (stub_env [(''{}'', JObj [])] (Inl None)) \<lparr>body = ''{}''\<rparr> = (invalid_image, [])\<close>
    by (rule invalid_image_400 [where b = "JObj []"]) (simp_all add: stub_env_def)
  show \<open>POST (stub_env [(''{"image":42}'', JObj [(''image'', JNum (Finite 42))])] (Inl None))
      \<lparr>body = ''{"image":42}''\<rparr> = (invalid_image, [])\<close>
    by (rule invalid_image_400 [where b = "JObj [(''image'', JNum (Finite 42))]"])
       (simp_all add: stub_env_def)
qed

text \<open>
  C2. A candidate object whose \<^verbatim>\<open>truthScore\<close> is present, is not null and is not an
  integer from 0 to 100 is rejected: validation throws, with an issue filed at
  \<^verbatim>\<open>truthScore\<close>, and no result (clamped or other) is returned.
\<close>

theorem truthScore_out_of_range_rejected:
  assumes "map_of kvs ''truthScore'' = Some v"
    and "v \<noteq> JNull"
    and "\<nexists>k::int. 0 \<le> k \<and> k \<le> 100 \<and> v = JNum (Finite (rat_of_int k))"
  shows "\<exists>issues. parse isURL factCheckZ (JObj kvs) = Inl (ZodError issues) \<and>
           (\<exists>c. ([Key ''truthScore''], c) \<in> set issues)"
proof -
  let ?ks = "(''truthScore'', ZNullable (ZNumber [CheckInt, CheckMin 0, CheckMax 100]))"
  from assms have "\<nexists>r. field_result isURL [] kvs ?ks = Inr r"
    using truthScore_field [of isURL "[Key ''truthScore'']" v] by (simp add: field_result_def)
  then obtain "is" where "is": "field_result isURL [] kvs ?ks = Inl is"
    by (cases "field_result isURL [] kvs ?ks") auto
  moreover have "field_result isURL [] kvs ?ks \<noteq> Inl []"
    unfolding field_result_def by (rule zparse_not_Inl_Nil)
  ultimately have "is \<noteq> []" by auto
  then obtain q c where qc: "(q, c) \<in> set is"
    by (cases "is") auto
  with "is" assms(1,2) have "q = [Key ''truthScore'']"
    by (auto simp: field_result_def finish_Inl_iff split: json.splits if_splits)
  from object_field_rejects [OF field_in_shape(1) "is"]
  obtain all where "zparse isURL (ZObject (shape factCheckZ)) [] (Some (JObj kvs)) = Inl all"
    and "set is \<subseteq> set all" by blast
  with qc \<open>q = [Key ''truthScore'']\<close> show ?thesis
    using factCheckZ_shape by (auto simp: parse_Inl_iff)
qed

theorem truthScore_out_of_range_rejected_witness:
  "(\<exists>issues. parse (prefix ''https://'') factCheckZ bad = Inl (ZodError issues) \<and>
      (\<exists>c. ([Key ''truthScore''], c) \<in> set issues)) \<and>
   (\<exists>issues. parse (prefix ''https://'') factCheckZ
        (JObj [(''truthScore'', JNum (Finite (- 5))), (''report'', JStr ''x'')]) = Inl (ZodError issues) \<and>
      (\<exists>c. ([Key ''truthScore''], c) \<in> set issues))"
proof
  have present: "map_of [(''productName'', JStr ''X''), (''company'', JStr ''Y''), (''keyNumbers'', JArr []),
      (''measurableFacts'', JArr []), (''category'', JNull), (''briefContext'', JNull),
      (''truthScore'', JNum (Finite 120)), (''report'', JStr ''x''), (''sources'', JArr [])]
      ''truthScore'' = Some (JNum (Finite 120))"
    by simp
  have not_null: "JNum (Finite 120) \<noteq> JNull"
    by simp
  have outside: "\<nexists>k::int. 0 \<le> k \<and> k \<le> 100 \<and> JNum (Finite 120) = JNum (Finite (rat_of_int k))"
    by auto
  from truthScore_out_of_range_rejected [OF present not_null outside]
  show "\<exists>issues. parse (prefix ''https://'') factCheckZ bad = Inl (ZodError issues) \<and>
      (\<exists>c. ([Key ''truthScore''], c) \<in> set issues)"
    unfolding bad_def .
next
  have present: "map_of [(''truthScore'', JNum (Finite (- 5))), (''report'', JStr ''x'')] ''truthScore''
      = Some (JNum (Finite (- 5)))"
    by simp
  have not_null: "JNum (Finite (- 5)) \<noteq> JNull"
    by simp
  have outside: "\<nexists>k::int. 0 \<le> k \<and> k \<le> 100 \<and> JNum (Finite (- 5)) = JNum (Finite (rat_of_int k))"
    by auto
  from truthScore_out_of_range_rejected [OF present not_null outside]
  show "\<exists>issues. parse (prefix ''https://'') factCheckZ
        (JObj [(''truthScore'', JNum (Finite (- 5))), (''report'', JStr ''x'')]) = Inl (ZodError issues) \<and>
      (\<exists>c. ([Key ''truthScore''], c) \<in> set issues)" .
qed

text \<open>
  C3, as the specification states it: the body of the 422 answer maps the path of every
  field that failed to its reason. The flattened body files an issue under the first
  element of its path only. An answer that fails at \<^verbatim>\<open>sources[0].title\<close> and one that
  fails at \<^verbatim>\<open>sources[1].url\<close> raise different issues and get the same body, which
  names neither path.
\<close>

theorem nested_paths_merged:
  "parse (prefix ''https://'') factCheckZ bad_title =
     Inl (ZodError [([Key ''sources'', Idx 0, Key ''title''], invalid_type T_string T_number)]) \<and>
   parse (prefix ''https://'') factCheckZ bad_url =
     Inl (ZodError [([Key ''sources'', Idx 1, Key ''url''], invalid_type T_string T_number)]) \<and>
   fst (POST (stub_env [(request_text, request_json), (''answer'', bad_title)] (Inr ''answer''))
          \<lparr>body = request_text\<rparr>) =
     \<lparr>status = 422,
      payload = ErrorFlattened
        \<lparr>formErrors = [], fieldErrors = [(Key ''sources'', [invalid_type T_string T_number])]\<rparr>\<rparr> \<and>
   fst (POST (stub_env [(request_text, request_json), (''answer'', bad_url)] (Inr ''answer''))
          \<lparr>body = request_text\<rparr>) =
     \<lparr>status = 422,
      payload = ErrorFlattened
        \<lparr>formErrors = [], fieldErrors = [(Key ''sources'', [invalid_type T_string T_number])]\<rparr>\<rparr>"
proof (intro conjI)
  show t: "parse (prefix ''https://'') factCheckZ bad_title =
     Inl (ZodError [([Key ''sources'', Idx 0, Key ''title''], invalid_type T_string T_number)])"
    by (simp add: parse_def factCheckZ_def sourceZ_def bad_title_def zparse_unfold enumerate_eq_zip)
  show u: "parse (prefix ''https://'') factCheckZ bad_url =
     Inl (ZodError [([Key ''sources'', Idx 1, Key ''url''], invalid_type T_string T_number)])"
    by (simp add: parse_def factCheckZ_def sourceZ_def bad_url_def zparse_unfold enumerate_eq_zip)
  have img: "property request_json ''image'' = Some (JStr ''data:image/webp;base64,UklGRg=='')"
    "prefix ''data:image'' ''data:image/webp;base64,UklGRg==''"
    by (simp_all add: request_json_def)
  show "fst (POST (stub_env [(request_text, request_json), (''answer'', bad_title)] (Inr ''answer''))
          \<lparr>body = request_text\<rparr>) =
     \<lparr>status = 422,
      payload = ErrorFlattened
        \<lparr>formErrors = [], fieldErrors = [(Key ''sources'', [invalid_type T_string T_number])]\<rparr>\<rparr>"
    unfolding POST_def
    by (subst POST_try_image [OF _ img]) (simp_all add: stub_env_def request_text_def t flatten_def)
  show "fst (POST (stub_env [(request_text, request_json), (''answer'', bad_url)] (Inr ''answer''))
          \<lparr>body = request_text\<rparr>) =
     \<lparr>status = 422,
      payload = ErrorFlattened
        \<lparr>formErrors = [], fieldErrors = [(Key ''sources'', [invalid_type T_string T_number])]\<rparr>\<rparr>"
    unfolding POST_def
    by (subst POST_try_image [OF _ img]) (simp_all add: stub_env_def request_text_def u flatten_def)
qed

text \<open>
  C3, amended: when the parsed answer of the model fails validation, the handler answers
  with status 422 and the flattened issues as body. If the answer is an object, the body
  has an entry for a top-level field of the schema exactly when an issue was raised at or
  below that field, and the entry lists the reasons of all those issues, without their
  paths; so every failing top-level field is listed, not only the first. If the answer
  is not an object, the only issue is a form error saying so.
\<close>

theorem validation_failure_422:
  assumes "JSON_parse e (body req) = Inr b"
    and "property b ''image'' = Some (JStr s)"
    and "prefix ''data:image'' s"
    and "responses_create e (analysis_params e s) = Inr jsonText"
    and "JSON_parse e jsonText = Inr parsed"
    and "parse (URL_parses e) factCheckZ parsed = Inl err"
  shows "\<exists>issues. err = ZodError issues \<and> issues \<noteq> [] \<and>
      POST e req =
        (\<lparr>status = 422, payload = ErrorFlattened (flatten issues)\<rparr>, [analysis_params e s]) \<and>
      (\<forall>kvs. parsed = JObj kvs \<longrightarrow>
         (\<forall>f \<in> set (shape factCheckZ).
            map_of (fieldErrors (flatten issues)) (Key (fst f)) =
              (case field_result (URL_parses e) [] kvs f of
                 Inl is \<Rightarrow> Some (map snd is) | Inr _ \<Rightarrow> None))) \<and>
      ((\<nexists>kvs. parsed = JObj kvs) \<longrightarrow>
         flatten issues =
           \<lparr>formErrors = [invalid_type T_object (getParsedType (Some parsed))], fieldErrors = []\<rparr>)"
proof -
  from assms(6) obtain issues where err: "err = ZodError issues"
    and issues: "zparse (URL_parses e) factCheckZ [] (Some parsed) = Inl issues"
    unfolding parse_Inl_iff by blast
  from issues have ne: "issues \<noteq> []"
    using zparse_not_Inl_Nil by metis
  have post: "POST e req =
      (\<lparr>status = 422, payload = ErrorFlattened (flatten issues)\<rparr>, [analysis_params e s])"
    unfolding POST_def POST_try_image [OF assms(1-3)] using assms(4-6) err by simp
  have fields: "map_of (fieldErrors (flatten issues)) (Key (fst f)) =
      (case field_result (URL_parses e) [] kvs f of Inl is \<Rightarrow> Some (map snd is) | Inr _ \<Rightarrow> None)"
    if "parsed = JObj kvs" and "f \<in> set (shape factCheckZ)" for kvs f
  proof -
    from issues that(1)
    have "zparse (URL_parses e) (ZObject (shape factCheckZ)) [] (Some (JObj kvs)) = Inl issues"
      using factCheckZ_shape by simp
    then show ?thesis
      using distinct_shape that(2) by (rule flatten_fields)
  qed
  have form: "flatten issues =
      \<lparr>formErrors = [invalid_type T_object (getParsedType (Some parsed))], fieldErrors = []\<rparr>"
    if "\<nexists>kvs. parsed = JObj kvs"
  proof -
    from that issues have "issues = [([], invalid_type T_object (getParsedType (Some parsed)))]"
      by (cases parsed) (auto simp: factCheckZ_def)
    then show ?thesis by (simp add: flatten_def)
  qed
  from err ne post fields form show ?thesis by blast
qed

theorem validation_failure_422_witness:
  "POST (stub_env [(request_text, request_json), (''bad'', bad)] (Inr ''bad''))
      \<lparr>body = request_text\<rparr> =
     (\<lparr>status = 422,
       payload = ErrorFlattened
         \<lparr>formErrors = [], fieldErrors = [(Key ''truthScore'', [too_big 100])]\<rparr>\<rparr>,
      [\<lparr>model = ''gpt-4o'', temperature = 2 / 10,
        image_url = ''data:image/webp;base64,UklGRg=='', max_output_tokens = 900\<rparr>])"
proof -
  let ?e = "stub_env [(request_text, request_json), (''bad'', bad)] (Inr ''bad'')"
  have 1: "JSON_parse ?e (body \<lparr>body = request_text\<rparr>) = Inr request_json"
    by (simp add: stub_env_def)
  have 2: "property request_json ''image'' = Some (JStr ''data:image/webp;base64,UklGRg=='')"
    by (simp add: request_json_def)
  have 3: "prefix ''data:image'' ''data:image/webp;base64,UklGRg==''"
    by simp
  have 4: "responses_create ?e (analysis_params ?e ''data:image/webp;base64,UklGRg=='') = Inr ''bad''"
    by (simp add: stub_env_def)
  have 5: "JSON_parse ?e ''bad'' = Inr bad"
    by (simp add: stub_env_def request_text_def)
  have 6: "parse (URL_parses ?e) factCheckZ bad = Inl (ZodError [([Key ''truthScore''], too_big 100)])"
    by (simp add: parse_def factCheckZ_def bad_def zparse_unfold stub_env_def)
  from validation_failure_422 [OF 1 2 3 4 5 6]
  obtain issues where eq: "ZodError [([Key ''truthScore''], too_big 100)] = ZodError issues"
    and post: "POST ?e \<lparr>body = request_text\<rparr> =
      (\<lparr>status = 422, payload = ErrorFlattened (flatten issues)\<rparr>,
       [analysis_params ?e ''data:image/webp;base64,UklGRg==''])"
    by blast
  from eq have "issues = [([Key ''truthScore''], too_big 100)]"
    by simp
  with post show ?thesis
    by (simp add: flatten_def analysis_params_def stub_env_def)
qed

text \<open>
  C4. For a request with a data URL in \<^verbatim>\<open>image\<close>, when the inference service
  answers with a text that the JSON parser rejects, the handler answers with status 500
  and an error message: the message of the parser's error, or "Unexpected server error"
  when that error has none. The body is never a result.
\<close>

theorem unparseable_output_500:
  assumes "JSON_parse e (body req) = Inr b"
    and "property b ''image'' = Some (JStr s)"
    and "prefix ''data:image'' s"
    and "responses_create e (analysis_params e s) = Inr jsonText"
    and "JSON_parse e jsonText = Inl m"
  shows "POST e req =
     (\<lparr>status = 500, payload = ErrorMessage (or_else m ''Unexpected server error'')\<rparr>,
      [analysis_params e s])"
  unfolding POST_def POST_try_image [OF assms(1-3)] using assms(4,5) by simp

theorem unparseable_output_500_witness:
  "POST (stub_env [(request_text, request_json)] (Inr ''I cannot read this image.''))
      \<lparr>body = request_text\<rparr> =
     (\<lparr>status = 500, payload = ErrorMessage ''Unexpected token''\<rparr>,
      [\<lparr>model = ''gpt-4o'', temperature = 2 / 10,
        image_url = ''data:image/webp;base64,UklGRg=='', max_output_tokens = 900\<rparr>])"
proof -
  let ?e = "stub_env [(request_text, request_json)] (Inr ''I cannot read this image.'')"
  have 1: "JSON_parse ?e (body \<lparr>body = request_text\<rparr>) = Inr request_json"
    by (simp add: stub_env_def)
  have 2: "property request_json ''image'' = Some (JStr ''data:image/webp;base64,UklGRg=='')"
    by (simp add: request_json_def)
  have 3: "prefix ''data:image'' ''data:image/webp;base64,UklGRg==''"
    by simp
  have 4: "responses_create ?e (analysis_params ?e ''data:image/webp;base64,UklGRg=='')
      = Inr ''I cannot read this image.''"
    by (simp add: stub_env_def)
  have 5: "JSON_parse ?e ''I cannot read this image.'' = Inl (Some ''Unexpected token'')"
    by (simp add: stub_env_def request_text_def)
  from unparseable_output_500 [OF 1 2 3 4 5] show ?thesis
    by (simp add: analysis_params_def stub_env_def)
qed



text \<open>
  C6, as the specification states it: a candidate that is valid but for a missing
  \<^verbatim>\<open>sources\<close> field is rejected. The schema gives \<^verbatim>\<open>sources\<close> the default
  \<^verbatim>\<open>[]\<close>, and the minimal candidate without its \<^verbatim>\<open>sources\<close> is accepted.
\<close>

theorem sources_not_required:
  "parse (prefix ''https://'') factCheckZ
      (JObj [(''productName'', JNull), (''company'', JNull), (''keyNumbers'', JArr []),
             (''measurableFacts'', JArr []), (''category'', JNull), (''briefContext'', JNull),
             (''truthScore'', JNull), (''report'', JStr ''Insufficient information to verify.'')])
     = Inr (Some minimal)"
  by (simp add: parse_def factCheckZ_def minimal_def zparse_unfold)

text \<open>
  C6, amended: a candidate with no \<^verbatim>\<open>sources\<close> field that is valid once
  \<^verbatim>\<open>sources: []\<close> is added to it is accepted as it is, with the same result, in
  which \<^verbatim>\<open>sources\<close> is the empty array.
\<close>

theorem omitted_sources_default_to_empty:
  assumes "map_of kvs ''sources'' = None"
    and "parse isURL factCheckZ (JObj ((''sources'', JArr []) # kvs)) = Inr r"
  shows "parse isURL factCheckZ (JObj kvs) = Inr r \<and>
         (\<exists>out. r = Some (JObj out) \<and> map_of out ''sources'' = Some (JArr []))"
proof -
  have "\<exists>t. s = ZDefault t (JArr [])" if "(''sources'', s) \<in> set (shape factCheckZ)" for s
    using default_fields_only [of "''sources''" s] that by simp
  then have "\<forall>k \<in> set [''sources'']. \<forall>s. (k, s) \<in> set (shape factCheckZ) \<longrightarrow> (\<exists>t. s = ZDefault t (JArr []))"
    by simp
  moreover from assms(1) have "\<forall>k \<in> set [''sources'']. map_of kvs k = None" by simp
  ultimately
  have "zparse isURL (ZObject (shape factCheckZ)) [] (Some (JObj (map (\<lambda>k. (k, JArr [])) [''sources''] @ kvs)))
      = zparse isURL (ZObject (shape factCheckZ)) [] (Some (JObj kvs))"
    by (intro defaults_omitted)
  with assms(2) have acc: "zparse isURL (ZObject (shape factCheckZ)) [] (Some (JObj kvs)) = Inr r"
    using factCheckZ_shape by (simp add: parse_Inr_iff)
  from default_field_result [OF distinct_shape default_fields(3) assms(1) acc] acc
  show ?thesis
    using factCheckZ_shape by (simp add: parse_Inr_iff)
qed

theorem omitted_sources_default_to_empty_witness:
  "parse (prefix ''https://'') factCheckZ
      (JObj [(''productName'', JNull), (''company'', JNull), (''keyNumbers'', JArr []),
             (''measurableFacts'', JArr []), (''category'', JNull), (''briefContext'', JNull),
             (''truthScore'', JNull), (''report'', JStr ''Insufficient information to verify.'')])
     = Inr (Some minimal) \<and>
   (\<exists>out. Some minimal = Some (JObj out) \<and> map_of out ''sources'' = Some (JArr []))"
proof (rule omitted_sources_default_to_empty)
  show "map_of [(''productName'', JNull), (''company'', JNull), (''keyNumbers'', JArr []),
             (''measurableFacts'', JArr []), (''category'', JNull), (''briefContext'', JNull),
             (''truthScore'', JNull), (''report'', JStr ''Insufficient information to verify.'')]
          ''sources'' = None"
    by simp
  show "parse (prefix ''https://'') factCheckZ
      (JObj ((''sources'', JArr []) #
            [(''productName'', JNull), (''company'', JNull), (''keyNumbers'', JArr []),
             (''measurableFacts'', JArr []), (''category'', JNull), (''briefContext'', JNull),
             (''truthScore'', JNull), (''report'', JStr ''Insufficient information to verify.'')]))
     = Inr (Some minimal)"
    by (simp add: parse_def factCheckZ_def minimal_def zparse_unfold)
qed

text \<open>
  C7. A candidate that omits \<^verbatim>\<open>keyNumbers\<close>, \<^verbatim>\<open>measurableFacts\<close> or both (the
  keys \<open>ks\<close>) and is otherwise valid, that is, valid once the omitted fields are
  supplied as empty arrays, is accepted as it is, with the same result, in which each
  omitted field is the empty array.
\<close>

theorem omitted_arrays_default_to_empty:
  assumes "set ks \<subseteq> {''keyNumbers'', ''measurableFacts''}"
    and "\<forall>k \<in> set ks. map_of kvs k = None"
    and "parse isURL factCheckZ (JObj (map (\<lambda>k. (k, JArr [])) ks @ kvs)) = Inr r"
  shows "parse isURL factCheckZ (JObj kvs) = Inr r \<and>
         (\<exists>out. r = Some (JObj out) \<and> (\<forall>k \<in> set ks. map_of out k = Some (JArr [])))"
proof -
  from assms(1) have "\<forall>k \<in> set ks. \<forall>s. (k, s) \<in> set (shape factCheckZ) \<longrightarrow> (\<exists>t. s = ZDefault t (JArr []))"
    using default_fields_only by blast
  with assms(2)
  have "zparse isURL (ZObject (shape factCheckZ)) [] (Some (JObj (map (\<lambda>k. (k, JArr [])) ks @ kvs)))
      = zparse isURL (ZObject (shape factCheckZ)) [] (Some (JObj kvs))"
    by (rule defaults_omitted)
  with assms(3) have acc: "zparse isURL (ZObject (shape factCheckZ)) [] (Some (JObj kvs)) = Inr r"
    using factCheckZ_shape by (simp add: parse_Inr_iff)
  then obtain out where out: "r = Some (JObj out)"
    unfolding zparse_object_Inr_iff by auto
  have "map_of out k = Some (JArr [])" if "k \<in> set ks" for k
  proof -
    from that assms(1) have "k = ''keyNumbers'' \<or> k = ''measurableFacts''" by auto
    then have "(k, ZDefault (ZArray (ZString [])) (JArr [])) \<in> set (shape factCheckZ)"
      using default_fields(1,2) by auto
    from default_field_result [OF distinct_shape this _ acc] that assms(2) out
    show ?thesis by auto
  qed
  with acc out show ?thesis
    using factCheckZ_shape by (simp add: parse_Inr_iff)
qed

theorem omitted_arrays_default_to_empty_witness:
  "parse (prefix ''https://'') factCheckZ
      (JObj [(''productName'', JNull), (''company'', JNull), (''category'', JNull),
             (''briefContext'', JNull), (''truthScore'', JNull),
             (''report'', JStr ''Insufficient information to verify.''), (''sources'', JArr [])])
     = Inr (Some minimal) \<and>
   (\<exists>out. Some minimal = Some (JObj out) \<and>
      map_of out ''keyNumbers'' = Some (JArr []) \<and> map_of out ''measurableFacts'' = Some (JArr []))"
proof -
  let ?kvs = "[(''productName'', JNull), (''company'', JNull), (''category'', JNull),
             (''briefContext'', JNull), (''truthScore'', JNull),
             (''report'', JStr ''Insufficient information to verify.''), (''sources'', JArr [])]"
  let ?ks = "[''keyNumbers'', ''measurableFacts'']"
  have 1: "set ?ks \<subseteq> {''keyNumbers'', ''measurableFacts''}" by simp
  have 2: "\<forall>k \<in> set ?ks. map_of ?kvs k = None" by simp
  have 3: "parse (prefix ''https://'') factCheckZ (JObj (map (\<lambda>k. (k, JArr [])) ?ks @ ?kvs))
      = Inr (Some minimal)"
    by (simp add: parse_def factCheckZ_def minimal_def zparse_unfold)
  from omitted_arrays_default_to_empty [OF 1 2 3] show ?thesis by simp
qed

text \<open>
  C8. A candidate object with no \<^verbatim>\<open>report\<close> field is rejected, with the issue
  that a string is required at \<^verbatim>\<open>report\<close>.
\<close>

theorem missing_report_rejected:
  assumes "map_of kvs ''report'' = None"
  shows "\<exists>issues. parse isURL factCheckZ (JObj kvs) = Inl (ZodError issues) \<and>
           ([Key ''report''], invalid_type T_string T_undefined) \<in> set issues"
proof -
  from assms have "field_result isURL [] kvs (''report'', ZString [])
      = Inl [([Key ''report''], invalid_type T_string T_undefined)]"
    by (simp add: field_result_def)
  from object_field_rejects [OF field_in_shape(2) this]
  show ?thesis
    using factCheckZ_shape by (auto simp: parse_Inl_iff)
qed

theorem missing_report_rejected_witness:
  "\<exists>issues. parse (prefix ''https://'') factCheckZ
      (JObj [(''productName'', JNull), (''company'', JNull), (''keyNumbers'', JArr []),
             (''measurableFacts'', JArr []), (''category'', JNull), (''briefContext'', JNull),
             (''truthScore'', JNull), (''sources'', JArr [])]) = Inl (ZodError issues) \<and>
     ([Key ''report''], invalid_type T_string T_undefined) \<in> set issues"
  by (rule missing_report_rejected) simp

text \<open>
  C9. The minimal result of the repository's test "allows nullables and defaults"
  (\<^verbatim>\<open>sources: []\<close>, every nullable field null, both string arrays empty, report
  "Insufficient information to verify.") is accepted, whatever the URL predicate is,
  and the validator returns it unchanged.
\<close>

theorem minimal_accepted: "parse isURL factCheckZ minimal = Inr (Some minimal)"
  by (simp add: parse_def factCheckZ_def minimal_def zparse_unfold)

text \<open>
  C10. Unknown keys are stripped, not refused, at every depth. Let \<open>c\<close> be an accepted
  candidate and \<open>c'\<close> a candidate that differs from it only in properties under keys
  that are not in the schema, in the candidate itself or in the objects of
  \<^verbatim>\<open>sources\<close>. Then \<open>c'\<close> is accepted with the same result; every key of the result
  is a key of the schema, and every object in its \<^verbatim>\<open>sources\<close> has no key but
  \<^verbatim>\<open>title\<close> and \<^verbatim>\<open>url\<close>: none of the added properties is in it.
\<close>

theorem unknown_keys_stripped:
  assumes "parse isURL factCheckZ c = Inr r"
    and "same_known factCheckZ (Some c) (Some c')"
  shows "parse isURL factCheckZ c' = Inr r \<and>
         (\<exists>out. r = Some (JObj out) \<and> known_only factCheckZ (JObj out) \<and>
            set (map fst out) \<subseteq> set (map fst (shape factCheckZ)) \<and>
            (\<forall>srcs props. (''sources'', JArr srcs) \<in> set out \<and> JObj props \<in> set srcs \<longrightarrow>
               set (map fst props) \<subseteq> {''title'', ''url''}))"
proof -
  from assms(1) have acc: "zparse isURL factCheckZ [] (Some c) = Inr r"
    by (simp add: parse_Inr_iff)
  from assms(2) have "zparse isURL factCheckZ [] (Some c') = zparse isURL factCheckZ [] (Some c)"
    by (rule same_known_zparse)
  with acc have acc': "parse isURL factCheckZ c' = Inr r"
    by (simp add: parse_Inr_iff)
  from acc have "zparse isURL (ZObject (shape factCheckZ)) [] (Some c) = Inr r"
    using factCheckZ_shape by simp
  then obtain out where out: "r = Some (JObj out)"
    unfolding zparse_object_Inr_iff by auto
  from acc have known: "known_only factCheckZ (JObj out)"
    unfolding out by (rule zparse_known_only)
  from acc have "zparse isURL (ZObject (shape factCheckZ)) [] (Some c) = Inr (Some (JObj out))"
    unfolding out using factCheckZ_shape by simp
  then have keys: "set (map fst out) \<subseteq> set (map fst (shape factCheckZ))"
    by (rule object_result_keys)
  have "set (map fst props) \<subseteq> {''title'', ''url''}"
    if "(''sources'', JArr srcs) \<in> set out" and "JObj props \<in> set srcs" for srcs props
    using known that by (rule known_only_sources)
  with acc' out known keys show ?thesis
    by blast
qed

theorem unknown_keys_stripped_witness:
  "parse (prefix ''https://'') factCheckZ
      (JObj [(''confidence'', JStr ''high''), (''productName'', JNull), (''company'', JNull),
             (''keyNumbers'', JArr []), (''measurableFacts'', JArr []), (''category'', JNull),
             (''briefContext'', JNull), (''truthScore'', JNull), (''report'', JStr ''x''),
             (''sources'', JArr
                [JObj [(''rank'', JNum (Finite 1)), (''url'', JStr ''https://example.com/specs'')]]),
             (''debug'', JBool True)])
     = Inr (Some (JObj
            [(''productName'', JNull), (''company'', JNull),
             (''keyNumbers'', JArr []), (''measurableFacts'', JArr []), (''category'', JNull),
             (''briefContext'', JNull), (''truthScore'', JNull), (''report'', JStr ''x''),
             (''sources'', JArr [JObj [(''url'', JStr ''https://example.com/specs'')]])]))"
proof -
  let ?c = "JObj [(''productName'', JNull), (''company'', JNull),
             (''keyNumbers'', JArr []), (''measurableFacts'', JArr []), (''category'', JNull),
             (''briefContext'', JNull), (''truthScore'', JNull), (''report'', JStr ''x''),
             (''sources'', JArr [JObj [(''url'', JStr ''https://example.com/specs'')]])]"
  let ?c' = "JObj [(''confidence'', JStr ''high''), (''productName'', JNull), (''company'', JNull),
             (''keyNumbers'', JArr []), (''measurableFacts'', JArr []), (''category'', JNull),
             (''briefContext'', JNull), (''truthScore'', JNull), (''report'', JStr ''x''),
             (''sources'', JArr
                [JObj [(''rank'', JNum (Finite 1)), (''url'', JStr ''https://example.com/specs'')]]),
             (''debug'', JBool True)]"
  have 1: "parse (prefix ''https://'') factCheckZ ?c = Inr (Some ?c)"
    by (simp add: parse_def factCheckZ_def sourceZ_def zparse_unfold)
  have 2: "same_known factCheckZ (Some ?c) (Some ?c')"
    by (simp add: factCheckZ_def sourceZ_def)
  from unknown_keys_stripped [OF 1 2] show ?thesis
    by simp
qed

end
